theory Spec2Isabelle
  imports Main "HOL-Library.Word" "HOL-Library.AList"
begin

text \<open>
  The cross-reference index of the mystlang extension (\<open>src/extension.ts\<close>): the
  resolution of the Sphinx root, the enumeration of the markdown files, the scan of a
  document for the definitions and the references of identifiers, the merge of the
  per-file results and the completion provider, together with the parts of the
  JavaScript language and of the Node.js and editor interfaces they rest on.
\<close>

section \<open>JavaScript strings\<close>

text \<open>
  A JavaScript string is a sequence of 16-bit code units. Literals of the source are
  written through \<open>js\<close>, which maps each ASCII character to its code unit.
\<close>

type_synonym jschar = "16 word"
type_synonym jsstring = "jschar list"

definition js :: "string \<Rightarrow> jsstring" where
  "js s = map of_char s"

text \<open>
  \<open>String.prototype.substring(start, end)\<close>: both arguments are clamped to
  \<open>[0, length]\<close> and swapped when \<open>start > end\<close>. With one argument the end is the
  length of the string.
\<close>

definition substring2 :: "jsstring \<Rightarrow> int \<Rightarrow> int \<Rightarrow> jsstring" where
  "substring2 s start end' =
     (let len = int (length s);
          a = min (max start 0) len;
          b = min (max end' 0) len;
          from = min a b;
          to = max a b
      in take (nat (to - from)) (drop (nat from) s))"

definition substring1 :: "jsstring \<Rightarrow> int \<Rightarrow> jsstring" where
  "substring1 s start = substring2 s start (int (length s))"

definition startsWith :: "jsstring \<Rightarrow> jsstring \<Rightarrow> bool" where
  "startsWith s k = (take (length k) s = k)"

definition endsWith :: "jsstring \<Rightarrow> jsstring \<Rightarrow> bool" where
  "endsWith s k = (length k \<le> length s \<and> drop (length s - length k) s = k)"

section \<open>Regular expressions\<close>

text \<open>
  The fragment of the JavaScript regular expression language that the source uses:
  the anchor \<open>^\<close> (no \<open>m\<close> flag, so it holds at index 0 only), literal text,
  a character class under a greedy quantifier \<open>{n,}\<close> (\<open>*\<close> is \<open>{0,}\<close>, \<open>+\<close> is
  \<open>{1,}\<close>), concatenation and alternation. A class lists single code units and the
  escapes \<open>\w\<close> and \<open>\s\<close>.
\<close>

datatype cls_item = CChar jschar | EscW | EscS

definition isWordChar :: "jschar \<Rightarrow> bool" where
  \<comment> \<open>\<open>\w\<close> without the \<open>u\<close> and \<open>i\<close> flags: \<open>[A-Za-z0-9_]\<close>\<close>
  "isWordChar c =
     ((0x41 \<le> c \<and> c \<le> 0x5A) \<or> (0x61 \<le> c \<and> c \<le> 0x7A) \<or> (0x30 \<le> c \<and> c \<le> 0x39) \<or> c = 0x5F)"

definition isWhiteSpace :: "jschar \<Rightarrow> bool" where
  \<comment> \<open>\<open>\s\<close>: the WhiteSpace and LineTerminator code points of ECMAScript\<close>
  "isWhiteSpace c =
     ((0x09 \<le> c \<and> c \<le> 0x0D) \<or> c = 0x20 \<or> c = 0xA0 \<or> c = 0x1680 \<or>
      (0x2000 \<le> c \<and> c \<le> 0x200A) \<or> c = 0x2028 \<or> c = 0x2029 \<or> c = 0x202F \<or>
      c = 0x205F \<or> c = 0x3000 \<or> c = 0xFEFF)"

fun cls_item_matches :: "cls_item \<Rightarrow> jschar \<Rightarrow> bool" where
  "cls_item_matches (CChar d) c = (c = d)"
| "cls_item_matches EscW c = isWordChar c"
| "cls_item_matches EscS c = isWhiteSpace c"

definition cls_matches :: "cls_item list \<Rightarrow> jschar \<Rightarrow> bool" where
  "cls_matches items c = list_ex (\<lambda>i. cls_item_matches i c) items"

datatype regex =
    Bol
  | Str jsstring
  | Rep nat "cls_item list"
  | Cat regex regex
  | Alt regex regex

text \<open>
  \<open>matchEnds r s i\<close> lists the indices at which a match of \<open>r\<close> that starts at index
  \<open>i\<close> of \<open>s\<close> can end, in the order in which a backtracking matcher tries them:
  the left alternative before the right one, the longest repetition first.
\<close>

fun matchEnds :: "regex \<Rightarrow> jsstring \<Rightarrow> nat \<Rightarrow> nat list" where
  "matchEnds Bol s i = (if i = 0 then [i] else [])"
| "matchEnds (Str k) s i = (if startsWith (drop i s) k then [i + length k] else [])"
| "matchEnds (Rep n items) s i =
     (let k = length (takeWhile (cls_matches items) (drop i s))
      in map (\<lambda>j. i + j) (rev [n..<Suc k]))"
| "matchEnds (Cat r1 r2) s i = concat (map (matchEnds r2 s) (matchEnds r1 s i))"
| "matchEnds (Alt r1 r2) s i = matchEnds r1 s i @ matchEnds r2 s i"

text \<open>
  Every regular expression of the source has the shape \<open>(g1)(g2)\<close>. A match is the
  triple of its start index, the index between the two groups and its end index, so
  that \<open>match.indices[2]\<close> is the pair of the last two and \<open>match[2]\<close> the text
  between them.
\<close>

type_synonym rmatch = "nat \<times> nat \<times> nat"

definition matchAt :: "regex \<Rightarrow> regex \<Rightarrow> jsstring \<Rightarrow> nat \<Rightarrow> rmatch option" where
  "matchAt g1 g2 s i =
     (case concat (map (\<lambda>m. map (\<lambda>e. (i, m, e)) (matchEnds g2 s m)) (matchEnds g1 s i)) of
        [] \<Rightarrow> None
      | x # _ \<Rightarrow> Some x)"

text \<open>\<open>RegExp.prototype.exec\<close> from \<open>lastIndex\<close>: the leftmost start index that matches.\<close>

function regexExec :: "regex \<Rightarrow> regex \<Rightarrow> jsstring \<Rightarrow> nat \<Rightarrow> rmatch option" where
  "regexExec g1 g2 s lastIndex =
     (if length s < lastIndex then None
      else case matchAt g1 g2 s lastIndex of
             Some m \<Rightarrow> Some m
           | None \<Rightarrow> regexExec g1 g2 s (Suc lastIndex))"
  by pat_completeness auto
termination
  by (relation "measure (\<lambda>(g1, g2, s, lastIndex). Suc (length s) - lastIndex)") auto

definition group2 :: "jsstring \<Rightarrow> rmatch \<Rightarrow> jsstring" where
  "group2 s m = (case m of (i, a, b) \<Rightarrow> take (b - a) (drop a s))"

definition group1 :: "jsstring \<Rightarrow> rmatch \<Rightarrow> jsstring" where
  "group1 s m = (case m of (i, a, b) \<Rightarrow> take (a - i) (drop i s))"

lemma matchEnds_ge: "e \<in> set (matchEnds r s i) \<Longrightarrow> i \<le> e"
proof (induction r arbitrary: i e)
  case (Cat r1 r2)
  from Cat.prems obtain m where m: "m \<in> set (matchEnds r1 s i)" "e \<in> set (matchEnds r2 s m)"
    by auto
  from Cat.IH(1)[OF m(1)] Cat.IH(2)[OF m(2)] show ?case by simp
qed (auto simp: Let_def split: if_splits)

lemma matchAt_Some:
  assumes "matchAt g1 g2 s i = Some (j, a, b)"
  shows "j = i \<and> a \<in> set (matchEnds g1 s i) \<and> b \<in> set (matchEnds g2 s a)"
proof -
  let ?xs = "concat (map (\<lambda>m. map (\<lambda>e. (i, m, e)) (matchEnds g2 s m)) (matchEnds g1 s i))"
  from assms obtain rest where "?xs = (j, a, b) # rest"
    by (auto simp: matchAt_def split: list.splits)
  then have "(j, a, b) \<in> set ?xs"
    by (metis list.set_intros(1))
  then show ?thesis by auto
qed

lemma regexExec_Some:
  "regexExec g1 g2 s lastIndex = Some (i, a, b) \<Longrightarrow>
     lastIndex \<le> i \<and> i \<le> length s \<and> matchAt g1 g2 s i = Some (i, a, b)"
proof (induction g1 g2 s lastIndex rule: regexExec.induct)
  case (1 g1 g2 s lastIndex)
  show ?case
  proof (cases "matchAt g1 g2 s lastIndex")
    case None
    with "1.prems" have le: "\<not> length s < lastIndex"
      and ex: "regexExec g1 g2 s (Suc lastIndex) = Some (i, a, b)"
      by (auto split: if_splits)
    from "1.IH"[OF le None ex] show ?thesis by simp
  next
    case (Some m)
    with "1.prems" have "\<not> length s < lastIndex" and "m = (i, a, b)"
      by (auto split: if_splits)
    with Some matchAt_Some[of g1 g2 s lastIndex i a b] show ?thesis by simp
  qed
qed

lemma regexExec_bounds:
  assumes "regexExec g1 g2 s lastIndex = Some (i, a, b)"
  shows "lastIndex \<le> i" and "i \<le> a" and "a \<le> b" and "i \<le> length s"
proof -
  from regexExec_Some[OF assms]
  have 1: "lastIndex \<le> i" "i \<le> length s" and 2: "matchAt g1 g2 s i = Some (i, a, b)"
    by simp_all
  from matchAt_Some[OF 2] matchEnds_ge show "i \<le> a" "a \<le> b" by blast+
  from 1 show "lastIndex \<le> i" "i \<le> length s" .
qed

text \<open>
  \<open>String.prototype.matchAll\<close> with a global regular expression: \<open>exec\<close> is called
  again from the end of the last match, one index further when the match was empty.
\<close>

function matchAll :: "regex \<Rightarrow> regex \<Rightarrow> jsstring \<Rightarrow> nat \<Rightarrow> rmatch list" where
  "matchAll g1 g2 s lastIndex =
     (case regexExec g1 g2 s lastIndex of
        None \<Rightarrow> []
      | Some (i, a, b) \<Rightarrow> (i, a, b) # matchAll g1 g2 s (if b = i then Suc b else b))"
  by pat_completeness auto
termination
proof (relation "measure (\<lambda>(g1, g2, s, lastIndex). Suc (length s) - lastIndex)", goal_cases)
  case 1
  show ?case by simp
next
  case (2 g1 g2 s lastIndex x2 i y a b)
  then have ex: "regexExec g1 g2 s lastIndex = Some (i, a, b)" by simp
  from regexExec_bounds[OF ex] show ?case by auto
qed

declare regexExec.simps [simp del]
declare matchAll.simps [simp del]

section \<open>The patterns of the extension\<close>

definition SecStartRegEx :: regex where
  \<comment> \<open>\<^verbatim>\<open>^\s*\{#\<close>\<close>
  "SecStartRegEx = Cat Bol (Cat (Rep 0 [EscS]) (Str (js ''{#'')))"

definition FigureMdRegEx :: regex where
  \<comment> \<open>\<^verbatim>\<open>^[`:]{3,}\{figure-md\}\s*\<close>\<close>
  "FigureMdRegEx =
     Cat Bol (Cat (Rep 3 [CChar 0x60, CChar 0x3A]) (Cat (Str (js ''{figure-md}'')) (Rep 0 [EscS])))"

definition NameRegEx :: regex where
  \<comment> \<open>\<^verbatim>\<open>^\s*:name:\s*\<close>\<close>
  "NameRegEx = Cat Bol (Cat (Rep 0 [EscS]) (Cat (Str (js '':name:'')) (Rep 0 [EscS])))"

definition LabelClass :: "cls_item list" where
  \<comment> \<open>\<^verbatim>\<open>[\w:+\-.,@]\<close>\<close>
  "LabelClass = [EscW, CChar 0x3A, CChar 0x2B, CChar 0x2D, CChar 0x2E, CChar 0x2C, CChar 0x40]"

definition LabelRegEx :: regex where
  \<comment> \<open>\<^verbatim>\<open>[\w:+\-.,@]+\<close>\<close>
  "LabelRegEx = Rep 1 LabelClass"

definition DefPrefixRegEx :: regex where
  \<comment> \<open>the first group of the regular expression of \<open>queryCrossRefDefLocations\<close>\<close>
  "DefPrefixRegEx = Alt SecStartRegEx (Alt FigureMdRegEx NameRegEx)"

definition RefPrefixRegEx :: regex where
  \<comment> \<open>the first group of the regular expression of \<open>queryReferenceLocations\<close>:
      \<^verbatim>\<open>\{numref\}`|\]\(\<close>\<close>
  "RefPrefixRegEx = Alt (Str (js ''{numref}'' @ [0x60])) (Str (js ''](''))"

section \<open>Documents and locations\<close>

datatype Position = Position nat nat

datatype Range = MkRange Position Position

datatype Location = Location jsstring Range

record TextDocument =
  uri :: jsstring
  fileName :: jsstring
  lines :: "jsstring list"

definition lineCount :: "TextDocument \<Rightarrow> nat" where
  "lineCount textDoc = length (lines textDoc)"

definition lineAt :: "TextDocument \<Rightarrow> nat \<Rightarrow> jsstring" where
  \<comment> \<open>\<open>textDoc.lineAt(row).text\<close>; the callers keep \<open>row\<close> below \<open>lineCount\<close>
      or take it from a position inside the document\<close>
  "lineAt textDoc row = (if row < lineCount textDoc then lines textDoc ! row else [])"

section \<open>Plain objects used as dictionaries\<close>

text \<open>
  The maps of the source are object literals \<open>{}\<close>, whose prototype is
  \<open>Object.prototype\<close>. An object is modelled by the list of its own properties, in the
  order of their creation. Reading a key that is not an own property finds the
  property of that name that \<open>Object.prototype\<close> provides, if there is one: a function,
  or for \<open>__proto__\<close> the prototype object itself, all of them truthy and none of them
  an array. Assigning to \<open>__proto__\<close> where it is not an own property runs the setter of
  \<open>Object.prototype\<close>, which replaces the prototype when the value is an object and
  creates no own property; any other assignment creates or overwrites an own property.
  \<open>Object.keys\<close> and the spread syntax enumerate the own properties: first the keys
  that are array indices, in ascending order, then the other keys in the order of
  their creation.
\<close>

datatype error = TypeError | IllegalArgument | IOError jsstring

type_synonym 'v object = "(jsstring \<times> 'v) list"

definition objectPrototypeKeys :: "jsstring list" where
  "objectPrototypeKeys = map js
     [''constructor'', ''__defineGetter__'', ''__defineSetter__'', ''hasOwnProperty'',
      ''__lookupGetter__'', ''__lookupSetter__'', ''isPrototypeOf'', ''propertyIsEnumerable'',
      ''toString'', ''valueOf'', ''__proto__'', ''toLocaleString'']"

datatype 'v property = Own 'v | Inherited | Undefined

definition getProperty :: "'v object \<Rightarrow> jsstring \<Rightarrow> 'v property" where
  "getProperty obj key =
     (case map_of obj key of
        Some v \<Rightarrow> Own v
      | None \<Rightarrow> if key \<in> set objectPrototypeKeys then Inherited else Undefined)"

definition setProperty :: "'v object \<Rightarrow> jsstring \<Rightarrow> 'v \<Rightarrow> 'v object" where
  "setProperty obj key v =
     (if key = js ''__proto__'' \<and> map_of obj key = None then obj
      else AList.update key v obj)"

definition isDigit :: "jschar \<Rightarrow> bool" where
  "isDigit c = (0x30 \<le> c \<and> c \<le> 0x39)"

definition digitsValue :: "jsstring \<Rightarrow> int" where
  "digitsValue k = foldl (\<lambda>n c. 10 * n + (uint c - 48)) 0 k"

definition isArrayIndex :: "jsstring \<Rightarrow> bool" where
  \<comment> \<open>the canonical decimal form of an integer below \<open>2^32 - 1\<close>\<close>
  "isArrayIndex k =
     (k \<noteq> [] \<and> list_all isDigit k \<and> (hd k \<noteq> 0x30 \<or> k = [0x30]) \<and> digitsValue k < 4294967295)"

definition ownEntries :: "'v object \<Rightarrow> (jsstring \<times> 'v) list" where
  "ownEntries obj =
     sort_key (\<lambda>e. digitsValue (fst e)) (filter (\<lambda>e. isArrayIndex (fst e)) obj)
     @ filter (\<lambda>e. \<not> isArrayIndex (fst e)) obj"

definition objectKeys :: "'v object \<Rightarrow> jsstring list" where
  "objectKeys obj = map fst (ownEntries obj)"

definition objectSpread :: "'v object \<Rightarrow> 'v object \<Rightarrow> 'v object" where
  \<comment> \<open>\<open>{ ...a, ...b }\<close>\<close>
  "objectSpread a b =
     fold (\<lambda>e obj. AList.update (fst e) (snd e) obj) (ownEntries a @ ownEntries b) []"

section \<open>Scanning one document\<close>

type_synonym defmap = "Location object"
type_synonym refmap = "Location list object"

definition matchLocation :: "TextDocument \<Rightarrow> nat \<Rightarrow> rmatch \<Rightarrow> Location" where
  \<comment> \<open>the range of \<open>match.indices[2]\<close> on line \<open>row\<close>\<close>
  "matchLocation textDoc row m =
     (case m of (i, a, b) \<Rightarrow> Location (uri textDoc) (MkRange (Position row a) (Position row b)))"

definition defMatches :: "TextDocument \<Rightarrow> nat \<Rightarrow> rmatch list" where
  "defMatches textDoc row = matchAll DefPrefixRegEx LabelRegEx (lineAt textDoc row) 0"

definition refMatches :: "TextDocument \<Rightarrow> nat \<Rightarrow> rmatch list" where
  "refMatches textDoc row = matchAll RefPrefixRegEx LabelRegEx (lineAt textDoc row) 0"

text \<open>
  The identifiers that the patterns capture in a document, each with the location of
  its occurrence, in the order of the scan: line by line, and within a line from left
  to right.
\<close>

definition defOccurrences :: "TextDocument \<Rightarrow> (jsstring \<times> Location) list" where
  "defOccurrences textDoc =
     concat (map (\<lambda>row. map (\<lambda>m. (group2 (lineAt textDoc row) m, matchLocation textDoc row m))
                              (defMatches textDoc row))
                 [0..<lineCount textDoc])"

definition refOccurrences :: "TextDocument \<Rightarrow> (jsstring \<times> Location) list" where
  "refOccurrences textDoc =
     concat (map (\<lambda>row. map (\<lambda>m. (group2 (lineAt textDoc row) m, matchLocation textDoc row m))
                              (refMatches textDoc row))
                 [0..<lineCount textDoc])"


definition queryCrossRefDefLocations :: "TextDocument \<Rightarrow> defmap" where
  "queryCrossRefDefLocations textDoc =
     fold (\<lambda>row locations.
        fold (\<lambda>m locations.
           setProperty locations (group2 (lineAt textDoc row) m) (matchLocation textDoc row m))
          (defMatches textDoc row) locations)
       [0..<lineCount textDoc] []"

fun forEach :: "('a \<Rightarrow> 's \<Rightarrow> error + 's) \<Rightarrow> 'a list \<Rightarrow> 's \<Rightarrow> error + 's" where
  "forEach f [] s = Inr s"
| "forEach f (x # xs) s = (case f x s of Inl e \<Rightarrow> Inl e | Inr s' \<Rightarrow> forEach f xs s')"

definition addReference :: "jsstring \<Rightarrow> Location \<Rightarrow> refmap \<Rightarrow> error + refmap" where
  \<comment> \<open>\<open>if (locations[symbol]) locations[symbol].push(location); else locations[symbol] = [location]\<close>\<close>
  "addReference symbol location locations =
     (case getProperty locations symbol of
        Own locs \<Rightarrow> Inr (AList.update symbol (locs @ [location]) locations)
      | Inherited \<Rightarrow> Inl TypeError
      | Undefined \<Rightarrow> Inr (setProperty locations symbol [location]))"

definition queryReferenceLocations :: "TextDocument \<Rightarrow> error + refmap" where
  "queryReferenceLocations textDoc =
     forEach (\<lambda>row locations.
        forEach (\<lambda>m locations.
           addReference (group2 (lineAt textDoc row) m) (matchLocation textDoc row m) locations)
          (refMatches textDoc row) locations)
       [0..<lineCount textDoc] []"

section \<open>Paths\<close>

text \<open>
  \<open>path.dirname\<close> and \<open>path.join\<close> as Node.js implements them for POSIX paths.
  \<open>dirnameLoop\<close> is the loop of \<open>dirname\<close>, which runs the index from the last code
  unit down to index 1 and stops at the first separator that follows a code unit
  other than a separator.
\<close>

fun dirnameLoop :: "jsstring \<Rightarrow> nat \<Rightarrow> bool \<Rightarrow> nat option" where
  "dirnameLoop p 0 matchedSlash = None"
| "dirnameLoop p (Suc i) matchedSlash =
     (if p ! Suc i = 0x2F
      then (if \<not> matchedSlash then Some (Suc i) else dirnameLoop p i matchedSlash)
      else dirnameLoop p i False)"

definition path_dirname :: "jsstring \<Rightarrow> jsstring" where
  "path_dirname p =
     (if p = [] then js ''.''
      else let hasRoot = (p ! 0 = 0x2F) in
        case dirnameLoop p (length p - 1) True of
          None \<Rightarrow> if hasRoot then js ''/'' else js ''.''
        | Some e \<Rightarrow> if hasRoot \<and> e = 1 then js ''//'' else take e p)"

fun splitSlash :: "jsstring \<Rightarrow> jsstring list" where
  "splitSlash [] = [[]]"
| "splitSlash (c # cs) =
     (if c = 0x2F then [] # splitSlash cs
      else (c # hd (splitSlash cs)) # tl (splitSlash cs))"

definition normalizeStep :: "bool \<Rightarrow> jsstring list \<Rightarrow> jsstring \<Rightarrow> jsstring list" where
  \<comment> \<open>one segment of \<open>normalizeString\<close>: empty and \<open>.\<close> segments are dropped, \<open>..\<close>
      removes the segment before it unless there is none or it is \<open>..\<close> itself\<close>
  "normalizeStep allowAboveRoot res seg =
     (if seg = [] \<or> seg = js ''.'' then res
      else if seg = js ''..''
      then (if res \<noteq> [] \<and> last res \<noteq> js ''..'' then butlast res
            else if allowAboveRoot then res @ [seg] else res)
      else res @ [seg])"

fun joinSlash :: "jsstring list \<Rightarrow> jsstring" where
  "joinSlash [] = []"
| "joinSlash [seg] = seg"
| "joinSlash (seg # segs) = seg @ [0x2F] @ joinSlash segs"

definition normalizeString :: "jsstring \<Rightarrow> bool \<Rightarrow> jsstring" where
  "normalizeString p allowAboveRoot =
     joinSlash (foldl (normalizeStep allowAboveRoot) [] (splitSlash p))"

definition path_normalize :: "jsstring \<Rightarrow> jsstring" where
  "path_normalize p =
     (if p = [] then js ''.''
      else let isAbsolute = (p ! 0 = 0x2F);
               trailingSeparator = (last p = 0x2F);
               q = normalizeString p (\<not> isAbsolute)
           in if q = [] then (if isAbsolute then js ''/'' else if trailingSeparator then js ''./'' else js ''.'')
              else (if isAbsolute then [0x2F] else []) @ q @ (if trailingSeparator then [0x2F] else []))"

definition path_join :: "jsstring \<Rightarrow> jsstring \<Rightarrow> jsstring" where
  "path_join a b =
     (if a = [] \<and> b = [] then js ''.''
      else path_normalize (if a = [] then b else if b = [] then a else a @ [0x2F] @ b))"

section \<open>The host: file system and document provider\<close>

text \<open>
  What the extension sees of its host. \<open>fs_access\<close> and \<open>openTextDocument\<close> answer for
  a path; a rejected promise is an error value. \<open>fs_readdir\<close> gives the entries of a
  directory; an entry that is a directory carries what reading that directory will
  give (its entries, or the error of the failed read), so that the directory tree
  below a path is a finite tree. \<open>completionOrder\<close>
  is the order in which the pending \<open>openTextDocument\<close> calls of one \<open>Promise.all\<close>
  complete.
\<close>

datatype fsnode =
    FileNode jsstring
  | DirNode jsstring "fsnode list"
  | UnreadableDir jsstring error

record host =
  fs_access :: "jsstring \<Rightarrow> error + unit"
  fs_readdir :: "jsstring \<Rightarrow> error + fsnode list"
  openTextDocument :: "jsstring \<Rightarrow> error + TextDocument"
  completionOrder :: "jsstring list \<Rightarrow> jsstring list"

definition doesFileExists :: "host \<Rightarrow> jsstring \<Rightarrow> bool" where
  "doesFileExists h filePath = (case fs_access h filePath of Inr _ \<Rightarrow> True | Inl err \<Rightarrow> False)"

definition isMarkdownFile :: "jsstring \<Rightarrow> bool" where
  "isMarkdownFile name = endsWith name (js ''.md'')"

definition setAdd :: "'a list \<Rightarrow> 'a \<Rightarrow> 'a list" where
  \<comment> \<open>\<open>Set.prototype.add\<close> on a set kept in insertion order\<close>
  "setAdd xs x = (if x \<in> set xs then xs else xs @ [x])"

fun searchDirectory :: "jsstring \<Rightarrow> fsnode list \<Rightarrow> jsstring list \<Rightarrow> error + jsstring list" where
  \<comment> \<open>the loop over the entries \<open>files\<close> that \<open>fs.readdir(directory)\<close> gave\<close>
  "searchDirectory directory [] markdownFiles = Inr markdownFiles"
| "searchDirectory directory (FileNode name # files) markdownFiles =
     searchDirectory directory files
       (if isMarkdownFile name then setAdd markdownFiles (path_join directory name)
        else markdownFiles)"
| "searchDirectory directory (DirNode name sub # files) markdownFiles =
     (case searchDirectory (path_join directory name) sub markdownFiles of
        Inl e \<Rightarrow> Inl e
      | Inr markdownFiles' \<Rightarrow> searchDirectory directory files markdownFiles')"
| "searchDirectory directory (UnreadableDir name e # files) markdownFiles = Inl e"

definition findMarkdownFiles :: "host \<Rightarrow> jsstring \<Rightarrow> error + jsstring list" where
  "findMarkdownFiles h dirPath =
     (case fs_readdir h dirPath of
        Inl e \<Rightarrow> Inl e
      | Inr files \<Rightarrow> searchDirectory dirPath files [])"

text \<open>A directory tree is readable when every directory in it can be read.\<close>

fun readable :: "fsnode list \<Rightarrow> bool" where
  "readable [] = True"
| "readable (FileNode name # files) = readable files"
| "readable (DirNode name sub # files) = (readable sub \<and> readable files)"
| "readable (UnreadableDir name e # files) = False"


definition KEY_FILE :: jsstring where
  "KEY_FILE = js ''conf.py''"

lemma dirnameLoop_bounds:
  "dirnameLoop p i matchedSlash = Some e \<Longrightarrow> 1 \<le> e \<and> e \<le> i \<and> (matchedSlash \<longrightarrow> e < i)"
proof (induction p i matchedSlash rule: dirnameLoop.induct)
  case (1 p matchedSlash)
  then show ?case by simp
next
  case (2 p i matchedSlash)
  show ?case
  proof (cases "p ! Suc i = 0x2F")
    case True
    with 2 show ?thesis by (cases matchedSlash) (auto split: if_splits)
  next
    case False
    with 2 show ?thesis by (auto split: if_splits)
  qed
qed

definition pathMeasure :: "jsstring \<Rightarrow> nat" where
  "pathMeasure p = (if p = js ''.'' \<or> p = js ''/'' then 0 else Suc (length p))"

lemma path_dirname_decreases:
  assumes "path_dirname p \<noteq> p"
  shows "pathMeasure (path_dirname p) < pathMeasure p"
proof (cases "p = []")
  case True
  then show ?thesis by (simp add: path_dirname_def pathMeasure_def js_def)
next
  case False
  show ?thesis
  proof (cases "dirnameLoop p (length p - 1) True")
    case None
    with False assms show ?thesis
      by (auto simp: path_dirname_def pathMeasure_def Let_def js_def split: if_splits)
  next
    case (Some e)
    from dirnameLoop_bounds[OF Some] have e: "1 \<le> e" "e < length p - 1" by simp_all
    then have len: "3 \<le> length p" by simp
    then have notfix: "p \<noteq> js ''.''" "p \<noteq> js ''/''" by (auto simp: js_def)
    show ?thesis
    proof (cases "p ! 0 = 0x2F \<and> e = 1")
      case True
      with False Some have "path_dirname p = js ''//''"
        by (simp add: path_dirname_def)
      with len notfix show ?thesis by (simp add: pathMeasure_def js_def)
    next
      case False
      with \<open>p \<noteq> []\<close> Some have "path_dirname p = take e p"
        by (auto simp: path_dirname_def Let_def)
      moreover from e have "e < length p" by arith
      ultimately show ?thesis using notfix by (simp add: pathMeasure_def)
    qed
  qed
qed

function getSphinxRoot :: "host \<Rightarrow> jsstring \<Rightarrow> jsstring option" where
  "getSphinxRoot h dirPath =
     (if doesFileExists h (path_join dirPath KEY_FILE) then Some dirPath
      else let parentDirPath = path_dirname dirPath
           in if parentDirPath = dirPath then None
              else getSphinxRoot h parentDirPath)"
  by pat_completeness auto
termination
  by (relation "measure (\<lambda>(h, dirPath). pathMeasure dirPath)")
     (auto simp: path_dirname_decreases)

declare getSphinxRoot.simps [simp del]

section \<open>Project-wide queries\<close>

text \<open>
  The callbacks given to \<open>Promise.all\<close> suspend at \<open>openTextDocument\<close> only, so each
  of them runs its remaining statements without interruption once its document is
  there, in the order \<open>completionOrder\<close>. A rejected callback rejects the whole query.
  \<open>!sphinxRootDir\<close> holds for \<open>undefined\<close> and for the empty string.
\<close>

definition openAndMergeDefs :: "host \<Rightarrow> jsstring \<Rightarrow> defmap \<Rightarrow> error + defmap" where
  \<comment> \<open>the callback of \<open>queryAllDefLocations\<close> for the file \<open>f\<close>\<close>
  "openAndMergeDefs h f allSymbols =
     (case openTextDocument h f of
        Inl e \<Rightarrow> Inl e
      | Inr textDoc \<Rightarrow> Inr (objectSpread allSymbols (queryCrossRefDefLocations textDoc)))"

definition queryAllDefLocations :: "host \<Rightarrow> TextDocument \<Rightarrow> error + defmap" where
  "queryAllDefLocations h curDoc =
     (case getSphinxRoot h (path_dirname (fileName curDoc)) of
        None \<Rightarrow> Inr (queryCrossRefDefLocations curDoc)
      | Some sphinxRootDir \<Rightarrow>
          if sphinxRootDir = [] then Inr (queryCrossRefDefLocations curDoc)
          else case findMarkdownFiles h sphinxRootDir of
            Inl e \<Rightarrow> Inl e
          | Inr markdownFiles \<Rightarrow>
              forEach (openAndMergeDefs h) (completionOrder h markdownFiles) [])"

definition mergeReference :: "jsstring \<times> Location list \<Rightarrow> refmap \<Rightarrow> error + refmap" where
  \<comment> \<open>\<open>if (allSymbols[symbol]) allSymbols[symbol].concat(refLocs[symbol]);
      else allSymbols[symbol] = refLocs[symbol]\<close>, where \<open>concat\<close> builds a new array
      and leaves the one stored under \<open>symbol\<close> as it was\<close>
  "mergeReference entry allSymbols =
     (case getProperty allSymbols (fst entry) of
        Own locs \<Rightarrow> Inr allSymbols
      | Inherited \<Rightarrow> Inl TypeError
      | Undefined \<Rightarrow> Inr (setProperty allSymbols (fst entry) (snd entry)))"

definition openAndMergeRefs :: "host \<Rightarrow> jsstring \<Rightarrow> refmap \<Rightarrow> error + refmap" where
  \<comment> \<open>the callback of \<open>queryAllReferenceLocations\<close> for the file \<open>f\<close>\<close>
  "openAndMergeRefs h f allSymbols =
     (case openTextDocument h f of
        Inl e \<Rightarrow> Inl e
      | Inr textDoc \<Rightarrow>
          (case queryReferenceLocations textDoc of
             Inl e \<Rightarrow> Inl e
           | Inr refLocs \<Rightarrow> forEach mergeReference (ownEntries refLocs) allSymbols))"

definition queryAllReferenceLocations :: "host \<Rightarrow> TextDocument \<Rightarrow> error + refmap" where
  "queryAllReferenceLocations h curDoc =
     (case getSphinxRoot h (path_dirname (fileName curDoc)) of
        None \<Rightarrow> queryReferenceLocations curDoc
      | Some sphinxRootDir \<Rightarrow>
          if sphinxRootDir = [] then queryReferenceLocations curDoc
          else case findMarkdownFiles h sphinxRootDir of
            Inl e \<Rightarrow> Inl e
          | Inr markdownFiles \<Rightarrow>
              forEach (openAndMergeRefs h) (completionOrder h markdownFiles) [])"

section \<open>Completion\<close>

datatype CompletionItemKind = Constant

datatype CompletionItem = CompletionItem jsstring CompletionItemKind

text \<open>
  \<open>triggerCharacter\<close> is \<open>None\<close> when the completion was not started by a trigger
  character. \<open>document.lineAt\<close> rejects a line number outside the document.
\<close>

definition provideCompletionItems ::
    "host \<Rightarrow> TextDocument \<Rightarrow> Position \<Rightarrow> jsstring option \<Rightarrow> error + CompletionItem list option" where
  "provideCompletionItems h document position triggerCharacter =
     (case position of Position line character \<Rightarrow>
        let keyword = js ''{numref}'' @ [0x60];
            items = (case queryAllDefLocations h document of
                       Inl e \<Rightarrow> Inl e
                     | Inr allIDLocations \<Rightarrow>
                         Inr (Some (map (\<lambda>id. CompletionItem id Constant) (objectKeys allIDLocations))))
        in if triggerCharacter = Some [0x60]
           then (if \<not> line < lineCount document then Inl IllegalArgument
                 else if \<not> startsWith
                            (substring1 (lineAt document line) (int character - int (length keyword)))
                            keyword
                 then Inr None
                 else items)
           else if triggerCharacter = Some (js ''('')
           then (if \<not> line < lineCount document then Inl IllegalArgument
                 else if substring2 (lineAt document line) (int character - 1) 1 \<noteq> js '']''
                 then Inr None
                 else items)
           else items)"

section \<open>Root resolution\<close>

definition exampleHost :: host where
  \<comment> \<open>a file system whose only marker file is \<open>/p/a/conf.py\<close>\<close>
  "exampleHost =
     \<lparr> fs_access = (\<lambda>p. if p = js ''/p/a/conf.py'' then Inr () else Inl (IOError (js ''ENOENT''))),
       fs_readdir = (\<lambda>p. Inl (IOError (js ''ENOENT''))),
       openTextDocument = (\<lambda>p. Inl (IOError (js ''ENOENT''))),
       completionOrder = id \<rparr>"

lemma getSphinxRoot_Some_iff:
  "getSphinxRoot h d = Some r \<longleftrightarrow>
     (\<exists>n. r = (path_dirname ^^ n) d \<and> doesFileExists h (path_join r KEY_FILE) \<and>
          (\<forall>m<n. \<not> doesFileExists h (path_join ((path_dirname ^^ m) d) KEY_FILE)))"
proof (induction h d rule: getSphinxRoot.induct)
  case (1 h dirPath)
  let ?has = "\<lambda>p. doesFileExists h (path_join p KEY_FILE)"
  let ?R = "\<lambda>d. \<exists>n. r = (path_dirname ^^ n) d \<and> ?has r \<and> (\<forall>m<n. \<not> ?has ((path_dirname ^^ m) d))"
  show ?case
  proof (cases "?has dirPath")
    case True
    have "?R dirPath \<longleftrightarrow> r = dirPath"
    proof
      assume "?R dirPath"
      then obtain n where n: "r = (path_dirname ^^ n) dirPath"
        "\<forall>m<n. \<not> ?has ((path_dirname ^^ m) dirPath)" by blast
      have "n = 0"
      proof (rule ccontr)
        assume "n \<noteq> 0"
        then have "0 < n" by simp
        with n(2) have "\<not> ?has ((path_dirname ^^ 0) dirPath)" by blast
        with True show False by simp
      qed
      with n(1) show "r = dirPath" by simp
    next
      assume "r = dirPath"
      with True have "r = (path_dirname ^^ 0) dirPath \<and> ?has r \<and>
          (\<forall>m<0. \<not> ?has ((path_dirname ^^ m) dirPath))" by simp
      then show "?R dirPath" by blast
    qed
    with True show ?thesis by (auto simp: getSphinxRoot.simps[of h dirPath])
  next
    case False
    note noConf = False
    have fixed: "(path_dirname ^^ n) dirPath = dirPath" if "path_dirname dirPath = dirPath" for n
      using that by (induction n) simp_all
    show ?thesis
    proof (cases "path_dirname dirPath = dirPath")
      case True
      have "\<not> ?R dirPath"
      proof
        assume "?R dirPath"
        then obtain n where "r = (path_dirname ^^ n) dirPath" "?has r" by blast
        with fixed[OF True] noConf show False by simp
      qed
      with True noConf show ?thesis by (simp add: getSphinxRoot.simps[of h dirPath])
    next
      case False
      have shift: "?R dirPath \<longleftrightarrow> ?R (path_dirname dirPath)"
      proof
        assume "?R dirPath"
        then obtain n where n: "r = (path_dirname ^^ n) dirPath" "?has r"
          "\<forall>m<n. \<not> ?has ((path_dirname ^^ m) dirPath)" by blast
        from n(1,2) noConf have "n \<noteq> 0" by (cases n) auto
        then obtain k where k: "n = Suc k" by (cases n) auto
        have "r = (path_dirname ^^ k) (path_dirname dirPath)"
          using n(1) k by (simp add: funpow_swap1)
        moreover have "\<forall>m<k. \<not> ?has ((path_dirname ^^ m) (path_dirname dirPath))"
        proof (intro allI impI)
          fix m assume "m < k"
          then have "Suc m < n" using k by simp
          with n(3) have "\<not> ?has ((path_dirname ^^ Suc m) dirPath)" by blast
          then show "\<not> ?has ((path_dirname ^^ m) (path_dirname dirPath))"
            by (simp add: funpow_swap1)
        qed
        ultimately show "?R (path_dirname dirPath)" using n(2) by blast
      next
        assume "?R (path_dirname dirPath)"
        then obtain k where k: "r = (path_dirname ^^ k) (path_dirname dirPath)" "?has r"
          "\<forall>m<k. \<not> ?has ((path_dirname ^^ m) (path_dirname dirPath))" by blast
        have "r = (path_dirname ^^ Suc k) dirPath" using k(1) by (simp add: funpow_swap1)
        moreover have "\<forall>m<Suc k. \<not> ?has ((path_dirname ^^ m) dirPath)"
        proof (intro allI impI)
          fix m assume m: "m < Suc k"
          show "\<not> ?has ((path_dirname ^^ m) dirPath)"
          proof (cases m)
            case 0
            with noConf show ?thesis by simp
          next
            case (Suc j)
            with m have "j < k" by simp
            with k(3) have "\<not> ?has ((path_dirname ^^ j) (path_dirname dirPath))" by blast
            with Suc show ?thesis by (simp add: funpow_swap1)
          qed
        qed
        ultimately show "?R dirPath" using k(2) by blast
      qed
      from "1.IH"[OF noConf refl False]
      have "getSphinxRoot h (path_dirname dirPath) = Some r \<longleftrightarrow> ?R (path_dirname dirPath)" .
      with shift False noConf show ?thesis
        by (simp add: getSphinxRoot.simps[of h dirPath])
    qed
  qed
qed

lemma getSphinxRoot_None_iff:
  "getSphinxRoot h d = None \<longleftrightarrow>
     (\<forall>n. \<not> doesFileExists h (path_join ((path_dirname ^^ n) d) KEY_FILE))"
proof
  assume none: "getSphinxRoot h d = None"
  show "\<forall>n. \<not> doesFileExists h (path_join ((path_dirname ^^ n) d) KEY_FILE)"
  proof (rule ccontr)
    assume "\<not> ?thesis"
    then have ex: "\<exists>n. doesFileExists h (path_join ((path_dirname ^^ n) d) KEY_FILE)" by blast
    define n where "n = (LEAST n. doesFileExists h (path_join ((path_dirname ^^ n) d) KEY_FILE))"
    from ex have has: "doesFileExists h (path_join ((path_dirname ^^ n) d) KEY_FILE)"
      unfolding n_def by (rule LeastI_ex)
    have "\<forall>m<n. \<not> doesFileExists h (path_join ((path_dirname ^^ m) d) KEY_FILE)"
      unfolding n_def using not_less_Least by blast
    with has have "getSphinxRoot h d = Some ((path_dirname ^^ n) d)"
      unfolding getSphinxRoot_Some_iff by blast
    with none show False by simp
  qed
next
  assume all: "\<forall>n. \<not> doesFileExists h (path_join ((path_dirname ^^ n) d) KEY_FILE)"
  show "getSphinxRoot h d = None"
  proof (cases "getSphinxRoot h d")
    case None
    then show ?thesis .
  next
    case (Some r)
    then obtain n where "r = (path_dirname ^^ n) d" "doesFileExists h (path_join r KEY_FILE)"
      unfolding getSphinxRoot_Some_iff by blast
    with all show ?thesis by blast
  qed
qed

text \<open>
  Claim C4. From every starting directory, \<open>getSphinxRoot\<close> returns the nearest
  directory in the chain of the start, its parent, the parent of that and so on that
  contains \<open>conf.py\<close>, and returns absent exactly when no directory of the chain does.
  The chain ends where \<open>path.dirname\<close> returns its argument, and stays there.
\<close>

theorem getSphinxRoot_nearest_ancestor:
  "(getSphinxRoot h d = Some r \<longleftrightarrow>
      (\<exists>n. r = (path_dirname ^^ n) d \<and> doesFileExists h (path_join r KEY_FILE) \<and>
           (\<forall>m<n. \<not> doesFileExists h (path_join ((path_dirname ^^ m) d) KEY_FILE))))
   \<and> (getSphinxRoot h d = None \<longleftrightarrow>
      (\<forall>n. \<not> doesFileExists h (path_join ((path_dirname ^^ n) d) KEY_FILE)))"
  using getSphinxRoot_Some_iff[of h d r] getSphinxRoot_None_iff[of h d] by blast

theorem getSphinxRoot_nearest_ancestor_witness:
  "getSphinxRoot exampleHost (js ''/p/a/b/c'') = Some (js ''/p/a'')
   \<and> (\<exists>n. js ''/p/a'' = (path_dirname ^^ n) (js ''/p/a/b/c'') \<and>
          doesFileExists exampleHost (path_join (js ''/p/a'') KEY_FILE) \<and>
          (\<forall>m<n. \<not> doesFileExists exampleHost
                      (path_join ((path_dirname ^^ m) (js ''/p/a/b/c'')) KEY_FILE)))
   \<and> getSphinxRoot exampleHost (js ''/q/x'') = None
   \<and> (\<forall>n. \<not> doesFileExists exampleHost (path_join ((path_dirname ^^ n) (js ''/q/x'')) KEY_FILE))"
proof -
  have found: "getSphinxRoot exampleHost (js ''/p/a/b/c'') = Some (js ''/p/a'')"
    by code_simp
  have absent: "getSphinxRoot exampleHost (js ''/q/x'') = None"
    by code_simp
  from found absent
    getSphinxRoot_nearest_ancestor[of exampleHost "js ''/p/a/b/c''" "js ''/p/a''"]
    getSphinxRoot_nearest_ancestor[of exampleHost "js ''/q/x''" "js ''/p/a''"]
  show ?thesis by blast
qed

section \<open>Example documents and projects\<close>

definition exampleDocument :: "string \<Rightarrow> jsstring list \<Rightarrow> TextDocument" where
  "exampleDocument name ls = \<lparr> uri = js name, fileName = js name, lines = ls \<rparr>"

definition docA :: TextDocument where
  \<comment> \<open>two references to \<open>X\<close>\<close>
  "docA = exampleDocument ''/p/A.md'' [js ''[one](X) and [two](X)'']"

definition docB :: TextDocument where
  \<comment> \<open>one reference to \<open>X\<close>\<close>
  "docB = exampleDocument ''/p/B.md'' [js ''{numref}'' @ [0x60] @ js ''X'' @ [0x60]]"

definition twoFileProject ::
    "(jsstring list \<Rightarrow> jsstring list) \<Rightarrow> TextDocument \<Rightarrow> TextDocument \<Rightarrow> host" where
  \<comment> \<open>the project \<open>/p\<close> with the files \<open>conf.py\<close>, \<open>A.md\<close> and \<open>B.md\<close>, the last two
      with the given contents\<close>
  "twoFileProject order A B =
     \<lparr> fs_access = (\<lambda>p. if p = js ''/p/conf.py'' then Inr () else Inl (IOError (js ''ENOENT''))),
       fs_readdir = (\<lambda>p. if p = js ''/p''
                          then Inr [FileNode (js ''conf.py''), FileNode (js ''A.md''), FileNode (js ''B.md'')]
                          else Inl (IOError (js ''ENOENT''))),
       openTextDocument = (\<lambda>p. if p = js ''/p/A.md'' then Inr A
                                else if p = js ''/p/B.md'' then Inr B
                                else Inl (IOError (js ''ENOENT''))),
       completionOrder = order \<rparr>"

definition defDocA :: TextDocument where
  "defDocA = exampleDocument ''/p/A.md'' [js ''{#alpha}'']"

definition defDocB :: TextDocument where
  "defDocB = exampleDocument ''/p/B.md'' [js '':name: beta'']"



definition plainDoc :: TextDocument where
  "plainDoc = exampleDocument ''/q/x/doc.md'' [js ''{#sec}'', js ''hello'', js ''see {numref}'' @ [0x60], js ''some code '' @ [0x60]]"


definition unreadableProject :: host where
  \<comment> \<open>the project \<open>/p\<close> with its marker file, whose directory cannot be read\<close>
  "unreadableProject =
     \<lparr> fs_access = (\<lambda>p. if p = js ''/p/conf.py'' then Inr () else Inl (IOError (js ''ENOENT''))),
       fs_readdir = (\<lambda>p. Inl (IOError (js ''EACCES''))),
       openTextDocument = (\<lambda>p. Inl (IOError (js ''ENOENT''))),
       completionOrder = id \<rparr>"


definition underscoreDoc :: TextDocument where
  "underscoreDoc = exampleDocument ''/d/u.md'' [js ''{#a_b}'', js ''see [this](a_b)'']"

definition protoDoc :: TextDocument where
  "protoDoc = exampleDocument ''/d/p.md'' [js ''{#__proto__}'']"

definition constructorDoc :: TextDocument where
  "constructorDoc = exampleDocument ''/d/c.md'' [js ''[x](constructor)'']"

section \<open>Properties of loops and objects\<close>

lemma fold_invariant:
  assumes "P s" and "\<And>x s. x \<in> set xs \<Longrightarrow> P s \<Longrightarrow> P (f x s)"
  shows "P (fold f xs s)"
  using assms by (induction xs arbitrary: s) auto

lemma forEach_invariant:
  assumes "forEach f xs s = Inr s'" and "P s"
    and "\<And>x s s'. x \<in> set xs \<Longrightarrow> P s \<Longrightarrow> f x s = Inr s' \<Longrightarrow> P s'"
  shows "P s'"
  using assms
proof (induction xs arbitrary: s)
  case Nil
  then show ?case by simp
next
  case (Cons x xs)
  from Cons.prems(1) obtain s1 where s1: "f x s = Inr s1" "forEach f xs s1 = Inr s'"
    by (auto split: sum.splits)
  from Cons.prems(3)[OF _ Cons.prems(2) s1(1)] have "P s1" by simp
  show ?case
  proof (rule Cons.IH[OF s1(2) \<open>P s1\<close>])
    fix y t t' assume "y \<in> set xs" "P t" "f y t = Inr t'"
    then show "P t'" using Cons.prems(3)[of y t t'] by simp
  qed
qed

lemma distinct_setProperty:
  "distinct (map fst obj) \<Longrightarrow> distinct (map fst (setProperty obj key v))"
  by (simp add: setProperty_def distinct_update)

lemma set_update_subset: "set (AList.update k v al) \<subseteq> insert (k, v) (set al)"
  by (induction al) auto

lemma set_setProperty_subset: "set (setProperty obj key v) \<subseteq> insert (key, v) (set obj)"
  using set_update_subset[of key v obj] by (auto simp: setProperty_def)

lemma distinct_queryCrossRefDefLocations:
  "distinct (map fst (queryCrossRefDefLocations textDoc))"
  unfolding queryCrossRefDefLocations_def
  by (intro fold_invariant[where P = "\<lambda>obj. distinct (map fst obj)"] distinct_setProperty) simp

lemma set_ownEntries: "set (ownEntries obj) = set obj"
  by (auto simp: ownEntries_def)

lemma distinct_ownEntries:
  assumes "distinct (map fst obj)"
  shows "distinct (map fst (ownEntries obj))"
proof -
  from assms have d: "distinct obj" and inj: "inj_on fst (set obj)"
    by (simp_all add: distinct_map)
  have "distinct (ownEntries obj)"
    using d by (auto simp: ownEntries_def)
  moreover have "inj_on fst (set (ownEntries obj))"
    using inj by (simp add: set_ownEntries)
  ultimately show ?thesis by (simp add: distinct_map)
qed


lemma set_objectKeys: "set (objectKeys obj) = fst ` set obj"
  by (simp add: objectKeys_def set_ownEntries)


lemma distinct_fold_update:
  "distinct (map fst acc) \<Longrightarrow>
     distinct (map fst (fold (\<lambda>e obj. AList.update (fst e) (snd e) obj) es acc))"
  by (rule fold_invariant[where P = "\<lambda>obj. distinct (map fst obj)"]) (simp_all add: distinct_update)

lemma distinct_objectSpread: "distinct (map fst (objectSpread a b))"
  unfolding objectSpread_def by (rule distinct_fold_update) simp



section \<open>Merging the definitions of a project\<close>

lemma queryAllDefLocations_rooted:
  assumes "getSphinxRoot h (path_dirname (fileName curDoc)) = Some root" and "root \<noteq> []"
    and "findMarkdownFiles h root = Inr files"
  shows "queryAllDefLocations h curDoc = forEach (openAndMergeDefs h) (completionOrder h files) []"
  using assms by (simp add: queryAllDefLocations_def)







lemma twoFileProject_root:
  "getSphinxRoot (twoFileProject order A B) (js ''/p'') = Some (js ''/p'')"
proof -
  have "path_join (js ''/p'') KEY_FILE = js ''/p/conf.py''" by code_simp
  then show ?thesis
    by (simp add: getSphinxRoot.simps[of _ "js ''/p''"] doesFileExists_def twoFileProject_def)
qed

lemma twoFileProject_files:
  "findMarkdownFiles (twoFileProject order A B) (js ''/p'') = Inr [js ''/p/A.md'', js ''/p/B.md'']"
proof -
  have "searchDirectory (js ''/p'') [FileNode (js ''conf.py''), FileNode (js ''A.md''), FileNode (js ''B.md'')] []
          = Inr [js ''/p/A.md'', js ''/p/B.md'']" by code_simp
  then show ?thesis by (simp add: findMarkdownFiles_def twoFileProject_def)
qed

lemma twoFileProject_open:
  "openTextDocument (twoFileProject order A B) (js ''/p/A.md'') = Inr A"
  "openTextDocument (twoFileProject order A B) (js ''/p/B.md'') = Inr B"
  by (simp_all add: twoFileProject_def js_def)

lemma dirname_examples:
  "path_dirname (js ''/p/A.md'') = js ''/p''" "path_dirname (js ''/p/B.md'') = js ''/p''"
  by code_simp+









section \<open>The reference map of one document\<close>

lemma addReference_nonempty:
  assumes "addReference symbol location locations = Inr locations'"
    and "\<forall>e\<in>set locations. snd e \<noteq> []"
  shows "\<forall>e\<in>set locations'. snd e \<noteq> []"
proof (cases "getProperty locations symbol")
  case (Own locs)
  with assms(1) have "locations' = AList.update symbol (locs @ [location]) locations"
    by (simp add: addReference_def)
  with assms(2) set_update_subset[of symbol "locs @ [location]" locations]
  show ?thesis by auto
next
  case Inherited
  with assms(1) show ?thesis by (simp add: addReference_def)
next
  case Undefined
  with assms(1) have "locations' = setProperty locations symbol [location]"
    by (simp add: addReference_def)
  with assms(2) set_setProperty_subset[of locations symbol "[location]"]
  show ?thesis by auto
qed

lemma queryReferenceLocations_nonempty:
  assumes "queryReferenceLocations textDoc = Inr locations"
  shows "\<forall>e\<in>set locations. snd e \<noteq> []"
proof -
  let ?P = "\<lambda>obj :: refmap. \<forall>e\<in>set obj. snd e \<noteq> []"
  let ?inner = "\<lambda>row locations.
        forEach (\<lambda>m locations.
           addReference (group2 (lineAt textDoc row) m) (matchLocation textDoc row m) locations)
          (refMatches textDoc row) locations"
  have inner: "?P s'" if "?inner row s = Inr s'" "?P s" for row s s'
    using that(1,2)
    by (rule forEach_invariant[where P = ?P]) (rule addReference_nonempty)
  from assms have "forEach ?inner [0..<lineCount textDoc] [] = Inr locations"
    by (simp add: queryReferenceLocations_def)
  then show ?thesis
    by (rule forEach_invariant[where P = ?P]) (simp, rule inner)
qed


text \<open>
  Claim C10. Every key of the reference map that \<open>queryReferenceLocations\<close> returns
  is bound to a non-empty sequence of locations.
\<close>

theorem reference_entries_nonempty:
  assumes "queryReferenceLocations textDoc = Inr locations"
    and "symbol \<in> set (objectKeys locations)"
  shows "\<exists>locs. map_of locations symbol = Some locs \<and> locs \<noteq> []"
proof -
  from assms(2) obtain locs where e: "(symbol, locs) \<in> set locations"
    by (auto simp: set_objectKeys)
  then obtain locs' where l: "map_of locations symbol = Some locs'"
    by (auto dest: weak_map_of_SomeI)
  then have "(symbol, locs') \<in> set locations" by (rule map_of_SomeD)
  with queryReferenceLocations_nonempty[OF assms(1)] have "locs' \<noteq> []" by auto
  with l show ?thesis by blast
qed

theorem reference_entries_nonempty_witness:
  "queryReferenceLocations docA =
     Inr [(js ''X'', [Location (js ''/p/A.md'') (MkRange (Position 0 6) (Position 0 7)),
                      Location (js ''/p/A.md'') (MkRange (Position 0 19) (Position 0 20))])]
   \<and> js ''X'' \<in> set (objectKeys [(js ''X'',
         [Location (js ''/p/A.md'') (MkRange (Position 0 6) (Position 0 7)),
          Location (js ''/p/A.md'') (MkRange (Position 0 19) (Position 0 20))])])
   \<and> (\<exists>locs. map_of [(js ''X'',
         [Location (js ''/p/A.md'') (MkRange (Position 0 6) (Position 0 7)),
          Location (js ''/p/A.md'') (MkRange (Position 0 19) (Position 0 20))])] (js ''X'') = Some locs
        \<and> locs \<noteq> [])"
proof -
  have q: "queryReferenceLocations docA =
     Inr [(js ''X'', [Location (js ''/p/A.md'') (MkRange (Position 0 6) (Position 0 7)),
                      Location (js ''/p/A.md'') (MkRange (Position 0 19) (Position 0 20))])]"
    by code_simp
  have k: "js ''X'' \<in> set (objectKeys [(js ''X'',
         [Location (js ''/p/A.md'') (MkRange (Position 0 6) (Position 0 7)),
          Location (js ''/p/A.md'') (MkRange (Position 0 19) (Position 0 20))])])"
    by code_simp
  from reference_entries_nonempty[OF q k] q k show ?thesis by blast
qed

section \<open>Completion triggers\<close>

lemma substring1_drop: "substring1 s start = drop (nat start) s"
proof -
  define len where "len = int (length s)"
  define a where "a = min (max start 0) len"
  have len0: "0 \<le> len" by (simp add: len_def)
  then have a: "0 \<le> a" "a \<le> len" by (simp_all add: a_def)
  have "substring1 s start = take (nat (max a len - min a len)) (drop (nat (min a len)) s)"
    using len0 by (simp add: substring1_def substring2_def Let_def len_def a_def)
  also have "\<dots> = take (nat (len - a)) (drop (nat a) s)"
    using a by (simp add: max_absorb2 min_absorb1)
  also have "\<dots> = drop (nat a) s"
    using a by (simp add: len_def)
  also have "\<dots> = drop (nat start) s"
  proof (cases "start \<le> len")
    case True
    then have "nat a = nat start" by (auto simp: a_def len_def)
    then show ?thesis by simp
  next
    case False
    then have "nat a = length s" "length s \<le> nat start" by (auto simp: a_def len_def)
    then show ?thesis by simp
  qed
  finally show ?thesis .
qed

lemma startsWith_before_caret:
  assumes "9 \<le> character"
  shows "startsWith (substring1 text (int character - int (length (js ''{numref}'' @ [0x60]))))
           (js ''{numref}'' @ [0x60])
         \<longleftrightarrow> take 9 (drop (character - 9) text) = js ''{numref}'' @ [0x60]"
proof -
  have l: "length (js ''{numref}'' @ [0x60 :: jschar]) = 9" by (simp add: js_def)
  from assms have n: "nat (int character - int 9) = character - 9" by simp
  show ?thesis unfolding startsWith_def substring1_drop l n by (rule refl)
qed


lemma distinct_forEach_openAndMergeDefs:
  assumes "forEach (openAndMergeDefs h) fs acc = Inr m" and "distinct (map fst acc)"
  shows "distinct (map fst m)"
  using assms(1,2)
proof (rule forEach_invariant[where P = "\<lambda>obj. distinct (map fst obj)"])
  fix f s s'
  assume "openAndMergeDefs h f s = Inr s'"
  then show "distinct (map fst s')"
    by (auto simp: openAndMergeDefs_def distinct_objectSpread split: sum.splits)
qed

lemma distinct_queryAllDefLocations:
  assumes "queryAllDefLocations h curDoc = Inr m"
  shows "distinct (map fst m)"
proof (cases "getSphinxRoot h (path_dirname (fileName curDoc))")
  case None
  with assms have "m = queryCrossRefDefLocations curDoc"
    by (simp add: queryAllDefLocations_def)
  then show ?thesis by (simp add: distinct_queryCrossRefDefLocations)
next
  case (Some root)
  show ?thesis
  proof (cases "root = []")
    case True
    with Some assms have "m = queryCrossRefDefLocations curDoc"
      by (simp add: queryAllDefLocations_def)
    then show ?thesis by (simp add: distinct_queryCrossRefDefLocations)
  next
    case False
    with Some assms obtain files where
      "forEach (openAndMergeDefs h) (completionOrder h files) [] = Inr m"
      by (auto simp: queryAllDefLocations_def split: sum.splits)
    then show ?thesis by (rule distinct_forEach_openAndMergeDefs) simp
  qed
qed

lemma distinct_objectKeys:
  "distinct (map fst obj) \<Longrightarrow> distinct (objectKeys obj)"
  by (simp add: objectKeys_def distinct_ownEntries)

lemma distinct_completion_items:
  "distinct ks \<Longrightarrow> distinct (map (\<lambda>id. CompletionItem id Constant) ks)"
  by (simp add: distinct_map inj_on_def)


text \<open>
  Claim C2 says that \<open>provideCompletionItems\<close> returns candidates only when the caret
  follows \<open>{numref}`\<close> or \<open>](\<close>, and nothing for any other trigger or preceding text.
  A completion that was started without a trigger character returns the candidates
  whatever precedes the caret: here the caret follows \<open>hello\<close>.
\<close>

theorem provideCompletionItems_without_trigger:
  "provideCompletionItems exampleHost plainDoc (Position 1 5) None
     = Inr (Some [CompletionItem (js ''sec'') Constant])"
  by code_simp



text \<open>
  Claim C2 as amended. With the backtick as trigger character and the caret at column
  9 or later, \<open>provideCompletionItems\<close> returns absent, not an error, when the nine code
  units before the caret are not \<open>{numref}`\<close>. When they are, and also when the
  completion has no trigger character or one other than the backtick and the open
  parenthesis, it returns what \<open>queryAllDefLocations\<close> gives for the document: the error
  of that query, or the list that has exactly one item for each key of the definition
  map, in the order of \<open>Object.keys\<close>, and no other item. Nothing is said about the
  open parenthesis as trigger character, nor about the backtick with the caret before
  column 9.
\<close>

theorem provideCompletionItems_triggers:
  "(triggerCharacter = Some [0x60] \<and> line < lineCount document \<and> 9 \<le> character \<and>
      take 9 (drop (character - 9) (lineAt document line)) \<noteq> js ''{numref}'' @ [0x60]
    \<longrightarrow> provideCompletionItems h document (Position line character) triggerCharacter = Inr None)
   \<and> ((triggerCharacter = Some [0x60] \<and> line < lineCount document \<and> 9 \<le> character \<and>
        take 9 (drop (character - 9) (lineAt document line)) = js ''{numref}'' @ [0x60])
       \<or> (triggerCharacter \<noteq> Some [0x60] \<and> triggerCharacter \<noteq> Some (js ''(''))
    \<longrightarrow> (case queryAllDefLocations h document of
           Inl e \<Rightarrow> provideCompletionItems h document (Position line character) triggerCharacter = Inl e
         | Inr allIDLocations \<Rightarrow>
             \<exists>items. provideCompletionItems h document (Position line character) triggerCharacter
                        = Inr (Some items) \<and>
                     items = map (\<lambda>id. CompletionItem id Constant) (objectKeys allIDLocations) \<and>
                     distinct items \<and>
                     length items = length allIDLocations \<and>
                     distinct (map fst allIDLocations) \<and>
                     set items = (\<lambda>id. CompletionItem id Constant) ` fst ` set allIDLocations))"
proof -
  let ?keyword = "js ''{numref}'' @ [0x60 :: jschar]"
  let ?result = "provideCompletionItems h document (Position line character) triggerCharacter"
  let ?items = "case queryAllDefLocations h document of
                  Inl e \<Rightarrow> Inl e
                | Inr allIDLocations \<Rightarrow>
                    Inr (Some (map (\<lambda>id. CompletionItem id Constant) (objectKeys allIDLocations)))"
  have absent: "?result = Inr None"
    if "triggerCharacter = Some [0x60]" "line < lineCount document" "9 \<le> character"
       "take 9 (drop (character - 9) (lineAt document line)) \<noteq> ?keyword"
    using that startsWith_before_caret[of character "lineAt document line"]
    by (simp add: provideCompletionItems_def Let_def)
  have present1: "?result = ?items"
    if "triggerCharacter = Some [0x60]" "line < lineCount document" "9 \<le> character"
       "take 9 (drop (character - 9) (lineAt document line)) = ?keyword"
    using that startsWith_before_caret[of character "lineAt document line"]
    by (simp add: provideCompletionItems_def Let_def)
  have present2: "?result = ?items"
    if "triggerCharacter \<noteq> Some [0x60]" "triggerCharacter \<noteq> Some (js ''('')"
    using that by (simp add: provideCompletionItems_def Let_def)
  have shape: "case queryAllDefLocations h document of
           Inl e \<Rightarrow> ?result = Inl e
         | Inr allIDLocations \<Rightarrow>
             \<exists>items. ?result = Inr (Some items) \<and>
                     items = map (\<lambda>id. CompletionItem id Constant) (objectKeys allIDLocations) \<and>
                     distinct items \<and>
                     length items = length allIDLocations \<and>
                     distinct (map fst allIDLocations) \<and>
                     set items = (\<lambda>id. CompletionItem id Constant) ` fst ` set allIDLocations"
    if r: "?result = ?items"
  proof (cases "queryAllDefLocations h document")
    case (Inl e)
    with r show ?thesis by simp
  next
    case (Inr m)
    from distinct_queryAllDefLocations[OF Inr] have d: "distinct (map fst m)" .
    then have dk: "distinct (objectKeys m)" by (rule distinct_objectKeys)
    have "length (objectKeys m) = card (set (objectKeys m))"
      using dk by (simp add: distinct_card)
    also have "\<dots> = card (set (map fst m))" by (simp add: set_objectKeys)
    also have "\<dots> = length m" using d by (metis distinct_card length_map)
    finally have len: "length (objectKeys m) = length m" .
    from r Inr d dk len show ?thesis
      by (simp add: set_objectKeys distinct_completion_items)
  qed
  from absent present1 present2 shape show ?thesis by blast
qed

theorem provideCompletionItems_triggers_witness:
  "provideCompletionItems exampleHost plainDoc (Position 3 11) (Some [0x60]) = Inr None
   \<and> provideCompletionItems exampleHost plainDoc (Position 2 13) (Some [0x60])
       = Inr (Some [CompletionItem (js ''sec'') Constant])
   \<and> provideCompletionItems exampleHost plainDoc (Position 1 5) None
       = Inr (Some [CompletionItem (js ''sec'') Constant])"
proof -
  let ?m = "[(js ''sec'', Location (js ''/q/x/doc.md'') (MkRange (Position 0 2) (Position 0 5)))]"
  have q: "queryAllDefLocations exampleHost plainDoc = Inr ?m"
    by code_simp
  have keys: "objectKeys ?m = [js ''sec'']"
    by code_simp
  have count: "2 < lineCount plainDoc" "3 < lineCount plainDoc"
    by (simp_all add: lineCount_def plainDoc_def exampleDocument_def)
  have other: "take 9 (drop (11 - 9) (lineAt plainDoc 3)) \<noteq> js ''{numref}'' @ [0x60]"
    by code_simp
  have numref: "take 9 (drop (13 - 9) (lineAt plainDoc 2)) = js ''{numref}'' @ [0x60]"
    by code_simp
  from provideCompletionItems_triggers[where triggerCharacter = "Some [0x60]" and line = 3
      and document = plainDoc and character = 11 and h = exampleHost] count other
  have 1: "provideCompletionItems exampleHost plainDoc (Position 3 11) (Some [0x60]) = Inr None"
    by simp
  from provideCompletionItems_triggers[where triggerCharacter = "Some [0x60]" and line = 2
      and document = plainDoc and character = 13 and h = exampleHost] count numref
  have "\<exists>items. provideCompletionItems exampleHost plainDoc (Position 2 13) (Some [0x60])
                  = Inr (Some items) \<and>
               items = map (\<lambda>id. CompletionItem id Constant) (objectKeys ?m)"
    unfolding q by auto
  then have 2: "provideCompletionItems exampleHost plainDoc (Position 2 13) (Some [0x60])
       = Inr (Some [CompletionItem (js ''sec'') Constant])"
    unfolding keys by simp
  from provideCompletionItems_triggers[where triggerCharacter = None and line = 1
      and document = plainDoc and character = 5 and h = exampleHost]
  have "\<exists>items. provideCompletionItems exampleHost plainDoc (Position 1 5) None
                  = Inr (Some items) \<and>
               items = map (\<lambda>id. CompletionItem id Constant) (objectKeys ?m)"
    unfolding q by auto
  then have 3: "provideCompletionItems exampleHost plainDoc (Position 1 5) None
       = Inr (Some [CompletionItem (js ''sec'') Constant])"
    unfolding keys by simp
  from 1 2 3 show ?thesis by blast
qed

section \<open>Errors of the file system\<close>

lemma searchDirectory_readable:
  "readable files \<Longrightarrow> \<exists>found. searchDirectory directory files markdownFiles = Inr found"
proof (induction directory files markdownFiles rule: searchDirectory.induct)
  case (3 directory name sub files markdownFiles)
  from "3.prems" have r: "readable sub" "readable files" by simp_all
  from "3.IH"(1)[OF r(1)] obtain found where
    f: "searchDirectory (path_join directory name) sub markdownFiles = Inr found" by blast
  from "3.IH"(2)[OF f r(2)] f show ?case by simp
qed simp_all

lemma searchDirectory_unreadable:
  "\<not> readable files \<Longrightarrow> \<exists>e. searchDirectory directory files markdownFiles = Inl e"
proof (induction directory files markdownFiles rule: searchDirectory.induct)
  case (3 directory name sub files markdownFiles)
  show ?case
  proof (cases "searchDirectory (path_join directory name) sub markdownFiles")
    case (Inl e)
    then show ?thesis by simp
  next
    case (Inr found)
    have "readable sub"
    proof (rule ccontr)
      assume "\<not> readable sub"
      from "3.IH"(1)[OF this] Inr show False by simp
    qed
    with "3.prems" have "\<not> readable files" by simp
    from "3.IH"(2)[OF Inr this] Inr show ?thesis by simp
  qed
qed simp_all

lemma forEach_openAndMergeDefs_total:
  assumes "\<forall>f\<in>set fs. \<exists>textDoc. openTextDocument h f = Inr textDoc"
  shows "\<exists>m. forEach (openAndMergeDefs h) fs acc = Inr m"
  using assms
proof (induction fs arbitrary: acc)
  case Nil
  then show ?case by simp
next
  case (Cons f fs)
  from Cons.prems obtain textDoc where "openTextDocument h f = Inr textDoc" by auto
  then have "openAndMergeDefs h f acc =
      Inr (objectSpread acc (queryCrossRefDefLocations textDoc))"
    by (simp add: openAndMergeDefs_def)
  moreover from Cons.prems have "\<forall>g\<in>set fs. \<exists>textDoc. openTextDocument h g = Inr textDoc"
    by simp
  ultimately show ?case using Cons.IH by simp
qed

lemma forEach_openAndMergeDefs_fails:
  assumes "f \<in> set fs" and "openTextDocument h f = Inl e"
  shows "\<exists>e'. forEach (openAndMergeDefs h) fs acc = Inl e'"
  using assms
proof (induction fs arbitrary: acc)
  case Nil
  then show ?case by simp
next
  case (Cons g fs)
  show ?case
  proof (cases "openAndMergeDefs h g acc")
    case (Inl e')
    then show ?thesis by simp
  next
    case (Inr acc')
    with Cons.prems have "f \<noteq> g" by (auto simp: openAndMergeDefs_def)
    with Cons.prems have "f \<in> set fs" by simp
    from Cons.IH[OF this Cons.prems(2)] Inr show ?thesis by simp
  qed
qed


text \<open>
  Claim C9 says that no query lets an error of the file system reach the caller. A
  project whose root directory cannot be read makes \<open>findMarkdownFiles\<close> fail, and
  \<open>queryAllDefLocations\<close> with it.
\<close>

theorem readdir_error_escapes:
  "getSphinxRoot unreadableProject (path_dirname (fileName docA)) = Some (js ''/p'')
   \<and> findMarkdownFiles unreadableProject (js ''/p'') = Inl (IOError (js ''EACCES''))
   \<and> queryAllDefLocations unreadableProject docA = Inl (IOError (js ''EACCES''))"
  by code_simp

text \<open>
  Claim C9 as amended. A failed existence check is treated as "does not exist", so
  that root resolution, which reads the file system through \<open>doesFileExists\<close> only,
  raises nothing. \<open>findMarkdownFiles\<close> fails with the error of \<open>fs.readdir\<close> when the
  root directory cannot be read; when it can, \<open>findMarkdownFiles\<close> returns the files if
  every directory below can be read and fails otherwise. \<open>queryAllDefLocations\<close>
  returns the map of the document when no root is found; under a root it fails with
  the error of \<open>findMarkdownFiles\<close>, fails when a markdown file cannot be opened, and
  returns a map when the enumeration and every \<open>openTextDocument\<close> succeed.
\<close>

theorem filesystem_errors:
  "(fs_access h filePath = Inl e \<longrightarrow> \<not> doesFileExists h filePath)
   \<and> (fs_readdir h dirPath = Inl e \<longrightarrow> findMarkdownFiles h dirPath = Inl e)
   \<and> (fs_readdir h dirPath = Inr entries \<longrightarrow>
        (readable entries \<longrightarrow> (\<exists>found. findMarkdownFiles h dirPath = Inr found)) \<and>
        (\<not> readable entries \<longrightarrow> (\<exists>e'. findMarkdownFiles h dirPath = Inl e')))
   \<and> (getSphinxRoot h (path_dirname (fileName curDoc)) = None \<longrightarrow>
        queryAllDefLocations h curDoc = Inr (queryCrossRefDefLocations curDoc))
   \<and> (getSphinxRoot h (path_dirname (fileName curDoc)) = Some root \<and> root \<noteq> [] \<longrightarrow>
        (findMarkdownFiles h root = Inl e \<longrightarrow> queryAllDefLocations h curDoc = Inl e) \<and>
        (findMarkdownFiles h root = Inr files \<and>
         (\<forall>f\<in>set (completionOrder h files). \<exists>textDoc. openTextDocument h f = Inr textDoc)
           \<longrightarrow> (\<exists>m. queryAllDefLocations h curDoc = Inr m)) \<and>
        (findMarkdownFiles h root = Inr files \<and>
         (\<exists>f\<in>set (completionOrder h files). \<exists>e'. openTextDocument h f = Inl e')
           \<longrightarrow> (\<exists>e'. queryAllDefLocations h curDoc = Inl e')))"
proof -
  have 1: "fs_access h filePath = Inl e \<longrightarrow> \<not> doesFileExists h filePath"
    by (simp add: doesFileExists_def)
  have 2: "fs_readdir h dirPath = Inl e \<longrightarrow> findMarkdownFiles h dirPath = Inl e"
    by (simp add: findMarkdownFiles_def)
  have 3: "fs_readdir h dirPath = Inr entries \<longrightarrow>
        (readable entries \<longrightarrow> (\<exists>found. findMarkdownFiles h dirPath = Inr found)) \<and>
        (\<not> readable entries \<longrightarrow> (\<exists>e'. findMarkdownFiles h dirPath = Inl e'))"
    using searchDirectory_readable[of entries dirPath "[]"]
      searchDirectory_unreadable[of entries dirPath "[]"]
    by (simp add: findMarkdownFiles_def)
  have 4: "getSphinxRoot h (path_dirname (fileName curDoc)) = None \<longrightarrow>
        queryAllDefLocations h curDoc = Inr (queryCrossRefDefLocations curDoc)"
    by (simp add: queryAllDefLocations_def)
  have 5: "findMarkdownFiles h root = Inl e \<longrightarrow> queryAllDefLocations h curDoc = Inl e"
    if "getSphinxRoot h (path_dirname (fileName curDoc)) = Some root" "root \<noteq> []"
    using that by (simp add: queryAllDefLocations_def)
  have 6: "\<exists>m. queryAllDefLocations h curDoc = Inr m"
    if "getSphinxRoot h (path_dirname (fileName curDoc)) = Some root" "root \<noteq> []"
      "findMarkdownFiles h root = Inr files"
      "\<forall>f\<in>set (completionOrder h files). \<exists>textDoc. openTextDocument h f = Inr textDoc"
    using queryAllDefLocations_rooted[OF that(1,2,3)]
      forEach_openAndMergeDefs_total[OF that(4), of "[]"] by simp
  have 7: "\<exists>e'. queryAllDefLocations h curDoc = Inl e'"
    if "getSphinxRoot h (path_dirname (fileName curDoc)) = Some root" "root \<noteq> []"
      "findMarkdownFiles h root = Inr files"
      "\<exists>f\<in>set (completionOrder h files). \<exists>e'. openTextDocument h f = Inl e'"
  proof -
    from that(4) obtain f e' where "f \<in> set (completionOrder h files)"
      "openTextDocument h f = Inl e'" by blast
    from forEach_openAndMergeDefs_fails[OF this, of "[]"]
      queryAllDefLocations_rooted[OF that(1,2,3)] show ?thesis by simp
  qed
  from 1 2 3 4 5 6 7 show ?thesis by blast
qed


theorem filesystem_errors_witness:
  "\<not> doesFileExists exampleHost (js ''/q/x/conf.py'')
   \<and> findMarkdownFiles unreadableProject (js ''/p'') = Inl (IOError (js ''EACCES''))
   \<and> queryAllDefLocations unreadableProject docA = Inl (IOError (js ''EACCES''))
   \<and> queryAllDefLocations exampleHost plainDoc = Inr (queryCrossRefDefLocations plainDoc)
   \<and> (\<exists>found. findMarkdownFiles (twoFileProject id defDocA defDocB) (js ''/p'') = Inr found)
   \<and> (\<exists>m. queryAllDefLocations (twoFileProject id defDocA defDocB) defDocA = Inr m)"
proof -
  let ?p = "twoFileProject id defDocA defDocB"
  let ?files = "[js ''/p/A.md'', js ''/p/B.md'']"
  let ?entries = "[FileNode (js ''conf.py''), FileNode (js ''A.md''), FileNode (js ''B.md'')]"
  have access: "fs_access exampleHost (js ''/q/x/conf.py'') = Inl (IOError (js ''ENOENT''))"
    by (simp add: exampleHost_def js_def)
  have denied: "fs_readdir unreadableProject (js ''/p'') = Inl (IOError (js ''EACCES''))"
    by (simp add: unreadableProject_def)
  have rootU: "getSphinxRoot unreadableProject (path_dirname (fileName docA)) = Some (js ''/p'')"
    by code_simp
  have noRoot: "getSphinxRoot exampleHost (path_dirname (fileName plainDoc)) = None"
    by code_simp
  have rootP: "getSphinxRoot ?p (path_dirname (fileName defDocA)) = Some (js ''/p'')"
    by (simp add: defDocA_def exampleDocument_def dirname_examples twoFileProject_root)
  have nonempty: "js ''/p'' \<noteq> []" by (simp add: js_def)
  have listing: "fs_readdir ?p (js ''/p'') = Inr ?entries"
    by (simp add: twoFileProject_def)
  have tree: "readable ?entries" by simp
  have opens: "\<forall>f\<in>set (completionOrder ?p ?files). \<exists>textDoc. openTextDocument ?p f = Inr textDoc"
  proof -
    have "completionOrder ?p ?files = ?files" by (simp add: twoFileProject_def)
    then show ?thesis by (simp add: twoFileProject_open)
  qed
  note inst = filesystem_errors[where e = "IOError (js ''EACCES'')"]
  from filesystem_errors[where h = exampleHost and filePath = "js ''/q/x/conf.py''"
      and e = "IOError (js ''ENOENT'')"] access
  have 1: "\<not> doesFileExists exampleHost (js ''/q/x/conf.py'')" by blast
  from inst[where h = unreadableProject and dirPath = "js ''/p''" and curDoc = docA
      and root = "js ''/p''"] denied rootU nonempty
  have 2: "findMarkdownFiles unreadableProject (js ''/p'') = Inl (IOError (js ''EACCES''))"
    and 3: "queryAllDefLocations unreadableProject docA = Inl (IOError (js ''EACCES''))"
    by blast+
  from inst[where h = exampleHost and curDoc = plainDoc] noRoot
  have 4: "queryAllDefLocations exampleHost plainDoc = Inr (queryCrossRefDefLocations plainDoc)"
    by blast
  from inst[where h = ?p and dirPath = "js ''/p''" and entries = ?entries
      and curDoc = defDocA and root = "js ''/p''" and files = ?files]
    listing tree rootP nonempty twoFileProject_files[of id defDocA defDocB] opens
  have 5: "\<exists>found. findMarkdownFiles ?p (js ''/p'') = Inr found"
    and 6: "\<exists>m. queryAllDefLocations ?p defDocA = Inr m"
    by blast+
  from 1 2 3 4 5 6 show ?thesis by blast
qed

section \<open>What the scanners capture\<close>

text \<open>
  A captured identifier is a non-empty run of code units of the label class, which
  holds the letters, the digits, the underscore and \<open>- : + , . @\<close>.
\<close>

lemma LabelClass_chars:
  "cls_matches LabelClass c \<longleftrightarrow>
     (0x41 \<le> c \<and> c \<le> 0x5A) \<or> (0x61 \<le> c \<and> c \<le> 0x7A) \<or> (0x30 \<le> c \<and> c \<le> 0x39) \<or>
     c = 0x5F \<or> c = 0x2D \<or> c = 0x3A \<or> c = 0x2B \<or> c = 0x2C \<or> c = 0x2E \<or> c = 0x40"
  by (auto simp: LabelClass_def cls_matches_def isWordChar_def)

lemma matchAll_matchAt:
  "m \<in> set (matchAll g1 g2 s lastIndex) \<Longrightarrow> \<exists>i. matchAt g1 g2 s i = Some m"
proof (induction g1 g2 s lastIndex rule: matchAll.induct)
  case (1 g1 g2 s lastIndex)
  show ?case
  proof (cases "regexExec g1 g2 s lastIndex")
    case None
    with "1.prems" show ?thesis by (simp add: matchAll.simps[of g1 g2 s lastIndex])
  next
    case (Some x)
    obtain i a b where x: "x = (i, a, b)" by (cases x)
    from "1.prems" Some x
    have "m = (i, a, b) \<or> m \<in> set (matchAll g1 g2 s (if b = i then Suc b else b))"
      by (simp add: matchAll.simps[of g1 g2 s lastIndex])
    then show ?thesis
    proof
      assume "m = (i, a, b)"
      with regexExec_Some[of g1 g2 s lastIndex i a b] Some x show ?thesis by blast
    next
      assume rest: "m \<in> set (matchAll g1 g2 s (if b = i then Suc b else b))"
      from Some x have ex: "regexExec g1 g2 s lastIndex = Some (i, a, b)" by simp
      from "1.IH"[OF ex refl refl rest] show ?thesis .
    qed
  qed
qed

lemma label_group:
  assumes "matchAt g1 LabelRegEx s i = Some m"
  shows "group2 s m \<noteq> [] \<and> (\<forall>c\<in>set (group2 s m). cls_matches LabelClass c)"
proof -
  obtain j a b where m: "m = (j, a, b)" by (cases m)
  let ?run = "takeWhile (cls_matches LabelClass) (drop a s)"
  from matchAt_Some[of g1 LabelRegEx s i j a b] assms m
  have "b \<in> set (matchEnds LabelRegEx s a)" by simp
  then obtain n where n: "b = a + n" "1 \<le> n" "n \<le> length ?run"
    by (auto simp: LabelRegEx_def Let_def split: if_splits)
  have "take n (drop a s) = take n ?run"
    using n(3)
    by (metis append_eq_conv_conj takeWhile_dropWhile_id take_append min.absorb2 take_take
        append_take_drop_id length_take)
  then have g: "group2 s m = take n ?run" using n(1) by (simp add: group2_def m)
  have "set (take n ?run) \<subseteq> set ?run" by (rule set_take_subset)
  then have "\<forall>c\<in>set (take n ?run). cls_matches LabelClass c"
    by (auto dest: set_takeWhileD)
  moreover from n(2,3) have "take n ?run \<noteq> []" by auto
  ultimately show ?thesis by (simp add: g)
qed

lemma captured_identifier_chars:
  assumes "e \<in> set (defOccurrences textDoc) \<or> e \<in> set (refOccurrences textDoc)"
  shows "fst e \<noteq> [] \<and> (\<forall>c\<in>set (fst e). cls_matches LabelClass c)"
proof -
  from assms obtain g1 row m where
    "m \<in> set (matchAll g1 LabelRegEx (lineAt textDoc row) 0)"
    "fst e = group2 (lineAt textDoc row) m"
    by (auto simp: defOccurrences_def refOccurrences_def defMatches_def refMatches_def)
  with matchAll_matchAt[of m g1 LabelRegEx "lineAt textDoc row" 0] label_group
  show ?thesis by metis
qed

text \<open>
  The definition map binds every captured identifier other than \<open>__proto__\<close> to the
  location of its last occurrence, and has no other key.
\<close>

lemma fold_concat_map:
  "fold f (concat (map g xs)) s = fold (\<lambda>x. fold f (g x)) xs s"
  by (induction xs arbitrary: s) simp_all

lemma queryCrossRefDefLocations_occurrences:
  "queryCrossRefDefLocations textDoc =
     fold (\<lambda>e obj. setProperty obj (fst e) (snd e)) (defOccurrences textDoc) []"
  by (simp add: queryCrossRefDefLocations_def defOccurrences_def fold_concat_map fold_map comp_def)

lemma map_of_fold_setProperty:
  "map_of (fold (\<lambda>e obj. setProperty obj (fst e) (snd e)) occ acc) k =
     (if k = js ''__proto__'' \<and> map_of acc k = None then None
      else (map_of acc ++ map_of (rev occ)) k)"
proof (induction occ arbitrary: acc)
  case Nil
  then show ?case by auto
next
  case (Cons e occ)
  obtain k0 v0 where e: "e = (k0, v0)" by (cases e)
  let ?acc' = "setProperty acc k0 v0"
  have step: "map_of ?acc' =
      (if k0 = js ''__proto__'' \<and> map_of acc k0 = None then map_of acc else (map_of acc)(k0 \<mapsto> v0))"
    by (auto simp: setProperty_def update_conv')
  have "map_of (fold (\<lambda>e obj. setProperty obj (fst e) (snd e)) (e # occ) acc) k =
        (if k = js ''__proto__'' \<and> map_of ?acc' k = None then None
         else (map_of ?acc' ++ map_of (rev occ)) k)"
    using Cons.IH[of ?acc'] by (simp add: e)
  also have "\<dots> = (if k = js ''__proto__'' \<and> map_of acc k = None then None
                     else (map_of acc ++ map_of (rev (e # occ))) k)"
    by (auto simp: step e map_add_def split: option.splits)
  finally show ?case .
qed

lemma definitions_last_occurrence:
  "map_of (queryCrossRefDefLocations textDoc) k =
     (if k = js ''__proto__'' then None else map_of (rev (defOccurrences textDoc)) k)"
  by (simp add: queryCrossRefDefLocations_occurrences map_of_fold_setProperty)

lemma definitions_keys:
  "fst ` set (queryCrossRefDefLocations textDoc) =
     fst ` set (defOccurrences textDoc) - {js ''__proto__''}"
proof -
  have "dom (map_of (queryCrossRefDefLocations textDoc)) =
        dom (map_of (rev (defOccurrences textDoc))) - {js ''__proto__''}"
    by (auto simp: definitions_last_occurrence dom_def)
  then show ?thesis by (simp add: dom_map_of_conv_image_fst)
qed


text \<open>
  When no captured identifier is the name of a property of \<open>Object.prototype\<close>, the
  reference map binds every captured identifier to the locations of its occurrences,
  in the order of the scan; otherwise \<open>queryReferenceLocations\<close> raises a \<open>TypeError\<close>.
\<close>

lemma forEach_append:
  "forEach f (xs @ ys) s = (case forEach f xs s of Inl e \<Rightarrow> Inl e | Inr s' \<Rightarrow> forEach f ys s')"
  by (induction xs arbitrary: s) (auto split: sum.splits)

lemma forEach_map: "forEach f (map g xs) = forEach (\<lambda>x. f (g x)) xs"
proof
  fix s show "forEach f (map g xs) s = forEach (\<lambda>x. f (g x)) xs s"
    by (induction xs arbitrary: s) (auto split: sum.splits)
qed

lemma forEach_concat_map:
  "forEach f (concat (map g xs)) s = forEach (\<lambda>x. forEach f (g x)) xs s"
  by (induction xs arbitrary: s) (auto simp: forEach_append split: sum.splits)

lemma queryReferenceLocations_occurrences:
  "queryReferenceLocations textDoc =
     forEach (\<lambda>e. addReference (fst e) (snd e)) (refOccurrences textDoc) []"
  by (simp add: queryReferenceLocations_def refOccurrences_def forEach_concat_map forEach_map)

lemma forEach_addReference:
  assumes "\<forall>e\<in>set occ. fst e \<notin> set objectPrototypeKeys"
  shows "\<exists>m. forEach (\<lambda>e. addReference (fst e) (snd e)) occ acc = Inr m \<and>
           (\<forall>k. map_of m k =
              (case map_of acc k of
                 Some old \<Rightarrow> Some (old @ map snd (filter (\<lambda>e. fst e = k) occ))
               | None \<Rightarrow> if k \<in> fst ` set occ
                          then Some (map snd (filter (\<lambda>e. fst e = k) occ)) else None))"
  using assms
proof (induction occ arbitrary: acc)
  case Nil
  then show ?case by (auto split: option.splits)
next
  case (Cons e occ)
  obtain k0 v0 where e: "e = (k0, v0)" by (cases e)
  from Cons.prems e have notproto: "k0 \<notin> set objectPrototypeKeys" by simp
  then have k0: "k0 \<noteq> js ''__proto__''" by (auto simp: objectPrototypeKeys_def)
  define acc' where "acc' = AList.update k0 (case map_of acc k0 of Some old \<Rightarrow> old @ [v0] | None \<Rightarrow> [v0]) acc"
  have step: "addReference k0 v0 acc = Inr acc'"
    using notproto k0
    by (auto simp: addReference_def getProperty_def setProperty_def acc'_def split: option.splits)
  have acc': "map_of acc' = (map_of acc)(k0 \<mapsto> (case map_of acc k0 of Some old \<Rightarrow> old @ [v0] | None \<Rightarrow> [v0]))"
    by (simp add: acc'_def update_conv')
  from Cons.prems have "\<forall>e\<in>set occ. fst e \<notin> set objectPrototypeKeys" by simp
  from Cons.IH[OF this, of acc'] obtain m where
    m: "forEach (\<lambda>e. addReference (fst e) (snd e)) occ acc' = Inr m"
    and lookup: "\<And>k. map_of m k =
              (case map_of acc' k of
                 Some old \<Rightarrow> Some (old @ map snd (filter (\<lambda>e. fst e = k) occ))
               | None \<Rightarrow> if k \<in> fst ` set occ
                          then Some (map snd (filter (\<lambda>e. fst e = k) occ)) else None)"
    by blast
  have "forEach (\<lambda>e. addReference (fst e) (snd e)) (e # occ) acc = Inr m"
    using step m by (simp add: e)
  moreover have "map_of m k =
              (case map_of acc k of
                 Some old \<Rightarrow> Some (old @ map snd (filter (\<lambda>e. fst e = k) (e # occ)))
               | None \<Rightarrow> if k \<in> fst ` set (e # occ)
                          then Some (map snd (filter (\<lambda>e. fst e = k) (e # occ))) else None)" for k
    unfolding lookup[of k] acc' e
    by (cases "k = k0") (auto split: option.splits)
  ultimately show ?case by blast
qed

lemma references_counted:
  assumes "\<forall>e\<in>set (refOccurrences textDoc). fst e \<notin> set objectPrototypeKeys"
  shows "\<exists>m. queryReferenceLocations textDoc = Inr m \<and>
           (\<forall>k. map_of m k =
              (if k \<in> fst ` set (refOccurrences textDoc)
               then Some (map snd (filter (\<lambda>e. fst e = k) (refOccurrences textDoc)))
               else None))"
  using forEach_addReference[OF assms, of "[]"]
  by (simp add: queryReferenceLocations_occurrences)

lemma forEach_addReference_raises:
  assumes "\<exists>e\<in>set occ. fst e \<in> set objectPrototypeKeys"
    and "\<forall>k\<in>fst ` set acc. k \<notin> set objectPrototypeKeys"
  shows "forEach (\<lambda>e. addReference (fst e) (snd e)) occ acc = Inl TypeError"
  using assms
proof (induction occ arbitrary: acc)
  case Nil
  then show ?case by simp
next
  case (Cons e occ)
  obtain k0 v0 where e: "e = (k0, v0)" by (cases e)
  show ?case
  proof (cases "k0 \<in> set objectPrototypeKeys")
    case True
    with Cons.prems(2) have "map_of acc k0 = None"
      by (metis domIff dom_map_of_conv_image_fst)
    with True show ?thesis by (simp add: e addReference_def getProperty_def)
  next
    case False
    then have k0: "k0 \<noteq> js ''__proto__''" by (auto simp: objectPrototypeKeys_def)
    define acc' where "acc' = AList.update k0 (case map_of acc k0 of Some old \<Rightarrow> old @ [v0] | None \<Rightarrow> [v0]) acc"
    have step: "addReference k0 v0 acc = Inr acc'"
      using False k0
      by (auto simp: addReference_def getProperty_def setProperty_def acc'_def split: option.splits)
    have "fst ` set acc' = {k0} \<union> fst ` set acc" by (simp add: acc'_def dom_update)
    with False Cons.prems(2) have keys: "\<forall>k\<in>fst ` set acc'. k \<notin> set objectPrototypeKeys"
      by auto
    from Cons.prems(1) False e have "\<exists>e\<in>set occ. fst e \<in> set objectPrototypeKeys" by auto
    from Cons.IH[OF this keys] step show ?thesis by (simp add: e)
  qed
qed

lemma references_raise:
  assumes "\<exists>e\<in>set (refOccurrences textDoc). fst e \<in> set objectPrototypeKeys"
  shows "queryReferenceLocations textDoc = Inl TypeError"
  using forEach_addReference_raises[OF assms, of "[]"]
  by (simp add: queryReferenceLocations_occurrences)

section \<open>Behaviour on particular inputs\<close>

text \<open>
  Claim C1 says that the merged reference map of a project keeps every reference:
  with \<open>X\<close> referenced twice in \<open>A.md\<close> and once in \<open>B.md\<close>, the sequence for \<open>X\<close> has
  length 3. Evaluated on such a project, \<open>queryAllReferenceLocations\<close> returns the two
  locations of \<open>A.md\<close> when \<open>A.md\<close> is opened first and the one location of \<open>B.md\<close> when
  \<open>B.md\<close> is opened first: the array that \<open>concat\<close> builds is not stored.
\<close>

theorem queryAllReferenceLocations_drops_references:
  "queryReferenceLocations docA =
     Inr [(js ''X'', [Location (js ''/p/A.md'') (MkRange (Position 0 6) (Position 0 7)),
                      Location (js ''/p/A.md'') (MkRange (Position 0 19) (Position 0 20))])]
   \<and> queryReferenceLocations docB =
     Inr [(js ''X'', [Location (js ''/p/B.md'') (MkRange (Position 0 9) (Position 0 10))])]
   \<and> findMarkdownFiles (twoFileProject id docA docB) (js ''/p'') = Inr [js ''/p/A.md'', js ''/p/B.md'']
   \<and> queryAllReferenceLocations (twoFileProject id docA docB) docA =
     Inr [(js ''X'', [Location (js ''/p/A.md'') (MkRange (Position 0 6) (Position 0 7)),
                      Location (js ''/p/A.md'') (MkRange (Position 0 19) (Position 0 20))])]
   \<and> queryAllReferenceLocations (twoFileProject rev docA docB) docA =
     Inr [(js ''X'', [Location (js ''/p/B.md'') (MkRange (Position 0 9) (Position 0 10))])]"
  by code_simp

text \<open>
  Claim C3 says that a captured identifier is a non-empty string over
  \<open>A-Z a-z 0-9 - : + , . @\<close> and never holds an underscore. The label pattern is
  written with \<open>\w\<close>, which also matches the underscore: the definition scanner, the
  reference scanner and the label pattern alone all take \<open>a_b\<close> as one identifier.
\<close>

theorem label_pattern_accepts_underscore:
  "map fst (defOccurrences underscoreDoc) = [js ''a_b'']
   \<and> map fst (refOccurrences underscoreDoc) = [js ''a_b'']
   \<and> matchEnds LabelRegEx (js ''a_b'') 0 = [3, 2, 1]
   \<and> map fst (queryCrossRefDefLocations underscoreDoc) = [js ''a_b'']
   \<and> cls_matches LabelClass 0x5F"
  by code_simp

text \<open>
  Claim C5 says that the definition map of a document has one entry for every
  identifier that a definition pattern of the document captures. The line
  \<open>{#__proto__}\<close> defines the identifier \<open>__proto__\<close>, and the map that
  \<open>queryCrossRefDefLocations\<close> returns for it has no entry: the assignment under that
  key replaces the prototype of the object.
\<close>

theorem queryCrossRefDefLocations_loses_proto:
  "defOccurrences protoDoc =
     [(js ''__proto__'', Location (js ''/d/p.md'') (MkRange (Position 0 2) (Position 0 11)))]
   \<and> queryCrossRefDefLocations protoDoc = []"
  by code_simp

text \<open>
  Claim C6 says that the reference map of a document has an entry for every
  identifier that a reference pattern of the document captures, with one location for
  each match. The line \<open>[x](constructor)\<close> references the identifier \<open>constructor\<close>,
  and \<open>queryReferenceLocations\<close> returns no map for it: the test \<open>locations[symbol]\<close>
  finds the function that every object inherits under that name, and calling its
  missing \<open>push\<close> raises a \<open>TypeError\<close>.
\<close>

theorem queryReferenceLocations_raises_on_constructor:
  "refOccurrences constructorDoc =
     [(js ''constructor'', Location (js ''/d/c.md'') (MkRange (Position 0 4) (Position 0 15)))]
   \<and> queryReferenceLocations constructorDoc = Inl TypeError"
  by code_simp

end
